theory Spec2Isabelle
  imports Main "HOL-Library.Sublist"
begin

section \<open>Text primitives of the source language\<close>

text \<open>
  A Python \<open>str\<close> is modelled as a \<open>string\<close> whose characters are the code points
  below 256. \<open>isspace\<close> is \<open>str.isspace\<close> on that range, \<open>strip\<close> is \<open>str.strip()\<close>,
  \<open>lower\<close> is \<open>str.lower()\<close>, \<open>x in y\<close> on strings is \<open>sublist x y\<close>.
\<close>

definition newline :: char where
  "newline = CHR 0x0A"

definition isspace :: "char \<Rightarrow> bool" where
  "isspace c =
     (let n = (of_char c :: nat)
      in (9 \<le> n \<and> n \<le> 13) \<or> (28 \<le> n \<and> n \<le> 32) \<or> n = 133 \<or> n = 160)"

definition strip :: "string \<Rightarrow> string" where
  "strip s = rev (dropWhile isspace (rev (dropWhile isspace s)))"

definition lower_char :: "char \<Rightarrow> char" where
  "lower_char c =
     (let n = (of_char c :: nat)
      in if (65 \<le> n \<and> n \<le> 90) \<or> (192 \<le> n \<and> n \<le> 222 \<and> n \<noteq> 215)
         then char_of (n + 32) else c)"

definition lower :: "string \<Rightarrow> string" where
  "lower s = map lower_char s"

fun join :: "string \<Rightarrow> string list \<Rightarrow> string" where
  "join sep [] = []"
| "join sep [x] = x"
| "join sep (x # y # ys) = x @ sep @ join sep (y # ys)"

section \<open>Regular expressions of \<open>is_empty_response\<close>\<close>

text \<open>
  The seven patterns of the source are concatenations of literals, groups of literal
  alternatives \<open>(a|b|c)\<close> and \<open>.*\<close> (any run of characters other than a newline).
  \<open>match_here p s\<close> holds when some prefix of \<open>s\<close> matches \<open>p\<close>; \<open>re_search\<close> is
  \<open>re.search\<close>: a match starting at some position.
\<close>

datatype atom = Lit string | Group "string list" | Dot_star

fun match_here :: "atom list \<Rightarrow> string \<Rightarrow> bool" where
  "match_here [] s = True"
| "match_here (Lit l # as) s = (prefix l s \<and> match_here as (drop (length l) s))"
| "match_here (Group ls # as) s =
     list_ex (\<lambda>l. prefix l s \<and> match_here as (drop (length l) s)) ls"
| "match_here (Dot_star # as) s =
     list_ex (\<lambda>n. match_here as (drop n s))
       [0..<Suc (length (takeWhile (\<lambda>c. c \<noteq> newline) s))]"

definition re_search :: "atom list \<Rightarrow> string \<Rightarrow> bool" where
  "re_search p s = list_ex (\<lambda>n. match_here p (drop n s)) [0..<Suc (length s)]"

section \<open>Response normalisation\<close>

definition sentinel :: string where
  "sentinel = ''N/A''"

text \<open>\<open>clean_claude_response\<close>, lines 99-114.\<close>

definition clean_claude_response :: "string \<Rightarrow> string" where
  "clean_claude_response response_text =
     (let response_text = strip response_text
      in if sublist ''N/A'' response_text
         then (if response_text \<noteq> ''N/A'' then ''N/A'' else response_text)
         else response_text)"

text \<open>The pattern table of \<open>is_empty_response\<close>, lines 122-130, in source order.\<close>

definition empty_patterns :: "atom list list" where
  "empty_patterns =
     [ [Lit ''based on my review'', Dot_star, Lit ''no'', Dot_star, Lit ''found''],
       [Lit ''there '', Group [''is'', ''are'', ''was'', ''were''], Lit '' no''],
       [Lit ''i '', Group [''do not'', ''don't'', ''cannot'', ''can't''], Lit '' find''],
       [Lit ''no relevant information''],
       [Lit ''no '', Group [''quotes'', ''information'', ''data'', ''content'', ''text''],
        Lit '' '', Group [''related'', ''relevant'', ''pertaining'', ''referring'']],
       [Lit ''the document does not '',
        Group [''contain'', ''include'', ''mention'', ''discuss'', ''address'']],
       [Lit ''nothing in the document''] ]"

text \<open>\<open>is_empty_response\<close>, lines 117-137.\<close>

definition is_empty_response :: "string \<Rightarrow> bool" where
  "is_empty_response response_text =
     (let response_text = strip (lower response_text)
      in list_ex (\<lambda>pattern. re_search pattern response_text) empty_patterns)"

text \<open>
  The cleaning step applied to every tier answer (lines 542-543, 591-592, 643-644,
  716-717): the answer becomes the sentinel when it contains the sentinel or is
  classified as empty, and is kept as received otherwise.
\<close>

definition normalize :: "string \<Rightarrow> string" where
  "normalize result =
     (if sublist ''N/A'' result \<or> is_empty_response result then ''N/A'' else result)"

section \<open>Text extraction\<close>

text \<open>
  A file on disk is its path and what the PDF library makes of it: an exception message
  when the file cannot be opened, or its pages, each of which yields its text or raises
  when it is loaded. The re-encoding \<open>encode('utf-8', errors='replace').decode('utf-8')\<close>
  changes lone surrogates only, which the character range of the model does not have, and
  is the identity here.
\<close>

record pdf_file =
  file_path :: string
  contents :: "string + (string + string) list"

datatype document_text =
    Expert (primary_text: string) (secondary_text: string) (tertiary_text: string)
  | Standard (whole_text: string)

fun str_nat :: "nat \<Rightarrow> string" where
  "str_nat n =
     (if n < 10 then [char_of (48 + n)]
      else str_nat (n div 10) @ [char_of (48 + n mod 10)])"

declare str_nat.simps [simp del]

definition page_marker :: "nat \<Rightarrow> string" where
  "page_marker n = ''\<newline>--- Page '' @ str_nat n @ '' ---\<newline>''"

text \<open>
  One iteration of a page loop (lines 349-360, 363-374, 377-388, 399-410): a page that
  raises is logged and skipped, any other page appends its text and its marker.
\<close>

definition add_page :: "(string + string) list \<Rightarrow> string \<Rightarrow> nat \<Rightarrow> string" where
  "add_page pages acc page_num =
     (case pages ! page_num of
        Inl e \<Rightarrow> acc
      | Inr page_text \<Rightarrow> acc @ page_text @ page_marker (page_num + 1))"

definition read_pages :: "(string + string) list \<Rightarrow> nat \<Rightarrow> nat \<Rightarrow> string" where
  "read_pages pages lo hi = foldl (add_page pages) [] [lo..<hi]"

text \<open>\<open>extract_text_from_pdf\<close>, lines 333-422; \<open>max_pages\<close> defaults to 250.\<close>

definition extract_text_from_pdf :: "pdf_file \<Rightarrow> nat \<Rightarrow> string + document_text" where
  "extract_text_from_pdf f max_pages =
     (case contents f of
        Inl e \<Rightarrow> Inl (''Error extracting text: '' @ e)
      | Inr pages \<Rightarrow>
          (let page_count = min (length pages) max_pages;
               is_expert_report = sublist ''Expert Reports'' (file_path f)
           in if is_expert_report
              then Inr (Expert (read_pages pages 0 (min 10 page_count))
                               (read_pages pages 10 (min 20 page_count))
                               (read_pages pages 20 page_count))
              else Inr (Standard (read_pages pages 0 page_count))))"

definition basename :: "string \<Rightarrow> string" where
  "basename p = rev (takeWhile (\<lambda>c. c \<noteq> CHR ''/'') (rev p))"

text \<open>\<open>extract_text_from_file\<close>, lines 322-331.\<close>

definition extract_text_from_file :: "pdf_file \<Rightarrow> string + document_text" where
  "extract_text_from_file f =
     (if suffix ''.pdf'' (lower (file_path f))
      then extract_text_from_pdf f 250
      else Inl (''Unsupported file format: '' @ basename (file_path f)
                @ ''. Only PDF files are supported.''))"

section \<open>The model service and the processor's state\<close>

text \<open>
  Every \<open>client.messages.create\<close> call is a request to the external service. The
  service is a function giving, for the n-th request of a run, the text it answers with
  (\<open>Inr\<close>) or the message of the exception the call raises (\<open>Inl\<close>). The state counts the
  requests made, records requests and \<open>time.sleep\<close> calls in order, and holds the
  processor's \<open>claude_model\<close> attribute. A tier request is recorded with its tier, its
  topic and the document content it carries, the parts of the prompt that vary.
\<close>

datatype tier = Primary | Secondary | Tertiary | Whole

datatype event =
    Probe string
  | Reset
  | Ask tier string string
  | Sleep nat

record world =
  answers :: "nat \<Rightarrow> string + string"
  calls :: nat
  trace :: "event list"
  claude_model :: "string option"

definition messages_create :: "event \<Rightarrow> world \<Rightarrow> (string + string) \<times> world" where
  "messages_create ev w =
     (answers w (calls w), w\<lparr>calls := Suc (calls w), trace := trace w @ [ev]\<rparr>)"

definition sleep :: "nat \<Rightarrow> world \<Rightarrow> world" where
  "sleep n w = w\<lparr>trace := trace w @ [Sleep n]\<rparr>"

text \<open>\<open>get_latest_claude_model\<close>, lines 19-49.\<close>

definition preferred_models :: "string list" where
  "preferred_models =
     [''claude-3-5-sonnet-20241022'', ''self.claude_model'', ''claude-3-sonnet-20240229'']"

fun try_models :: "string list \<Rightarrow> world \<Rightarrow> string option \<times> world" where
  "try_models [] w = (None, w)"
| "try_models (model # models) w =
     (case messages_create (Probe model) w of
        (Inr test_response, w') \<Rightarrow> (Some model, w')
      | (Inl e, w') \<Rightarrow> try_models models w')"

definition get_latest_claude_model :: "world \<Rightarrow> string \<times> world" where
  "get_latest_claude_model w =
     (case try_models preferred_models w of
        (Some model, w') \<Rightarrow> (model, w')
      | (None, w') \<Rightarrow> (''claude-3-sonnet-20240229'', w'))"

text \<open>\<open>reset_claude_session\<close>, lines 424-458: a failed reset is logged and returns False.\<close>

definition reset_claude_session :: "world \<Rightarrow> bool \<times> world" where
  "reset_claude_session w =
     (case messages_create Reset w of
        (Inr reset_response, w') \<Rightarrow> (True, w')
      | (Inl e, w') \<Rightarrow> (False, w'))"

section \<open>Extraction of one topic\<close>

text \<open>One tier request and the cleaning of its answer.\<close>

definition ask :: "tier \<Rightarrow> string \<Rightarrow> string \<Rightarrow> world \<Rightarrow> (string + string) \<times> world" where
  "ask t prompt document_content w =
     (case messages_create (Ask t prompt document_content) w of
        (Inl e, w') \<Rightarrow> (Inl e, w')
      | (Inr result, w') \<Rightarrow> (Inr (normalize result), w'))"

text \<open>Lines 546-595: the secondary tier, with \<open>secondary_result = ""\<close> when it is skipped.\<close>

definition secondary_step :: "string \<Rightarrow> string \<Rightarrow> string \<Rightarrow> world \<Rightarrow> (string + string) \<times> world" where
  "secondary_step secondary prompt primary_result w =
     (if strip primary_result = ''N/A'' \<or> length (strip primary_result) < 100
      then (case ask Secondary prompt secondary w of
              (Inl e, w') \<Rightarrow> (Inl e, w')
            | (Inr secondary_result, w') \<Rightarrow> (Inr secondary_result, sleep 1 w'))
      else (Inr [], w))"

text \<open>Lines 597-647: the tertiary tier, with \<open>tertiary_result = ""\<close> when it is skipped.\<close>

definition tertiary_step ::
  "string \<Rightarrow> string \<Rightarrow> string \<Rightarrow> string \<Rightarrow> world \<Rightarrow> (string + string) \<times> world" where
  "tertiary_step tertiary prompt primary_result secondary_result w =
     (if (strip primary_result = ''N/A'' \<and> strip secondary_result = ''N/A'')
         \<or> (length (strip primary_result) < 100 \<and> length (strip secondary_result) < 100
             \<and> strip secondary_result = ''N/A'')
      then (case ask Tertiary prompt tertiary w of
              (Inl e, w') \<Rightarrow> (Inl e, w')
            | (Inr tertiary_result, w') \<Rightarrow> (Inr tertiary_result, sleep 1 w'))
      else (Inr [], w))"

text \<open>Lines 649-666: the merge.\<close>

definition combine_results :: "string \<Rightarrow> string \<Rightarrow> string \<Rightarrow> string" where
  "combine_results primary_result secondary_result tertiary_result =
     (let all_results =
            (if strip primary_result \<noteq> ''N/A'' then [strip primary_result] else [])
            @ (if strip secondary_result \<noteq> ''N/A'' then [strip secondary_result] else [])
            @ (if strip tertiary_result \<noteq> ''N/A'' then [strip tertiary_result] else []);
          combined_result =
            (if all_results \<noteq> [] then join ''\<newline>\<newline>'' all_results else ''N/A'')
      in strip combined_result)"

text \<open>Lines 495-667: one topic of an expert report.\<close>

definition expert_topic ::
  "string \<Rightarrow> string \<Rightarrow> string \<Rightarrow> string \<Rightarrow> world \<Rightarrow> (string + string) \<times> world" where
  "expert_topic primary secondary tertiary prompt w =
     (case ask Primary prompt primary w of
        (Inl e, w1) \<Rightarrow> (Inl e, w1)
      | (Inr primary_result, w1) \<Rightarrow>
          (case secondary_step secondary prompt primary_result w1 of
             (Inl e, w2) \<Rightarrow> (Inl e, w2)
           | (Inr secondary_result, w2) \<Rightarrow>
               (case tertiary_step tertiary prompt primary_result secondary_result w2 of
                  (Inl e, w3) \<Rightarrow> (Inl e, w3)
                | (Inr tertiary_result, w3) \<Rightarrow>
                    (Inr (combine_results primary_result secondary_result tertiary_result),
                     w3))))"

text \<open>Lines 669-721: one topic of any other document.\<close>

definition standard_topic :: "string \<Rightarrow> string \<Rightarrow> world \<Rightarrow> (string + string) \<times> world" where
  "standard_topic document_content prompt w = ask Whole prompt document_content w"

fun process_prompt :: "document_text \<Rightarrow> string \<Rightarrow> world \<Rightarrow> (string + string) \<times> world" where
  "process_prompt (Expert primary secondary tertiary) prompt w =
     expert_topic primary secondary tertiary prompt w"
| "process_prompt (Standard document_content) prompt w =
     standard_topic document_content prompt w"

section \<open>Documents and batches\<close>

text \<open>\<open>results[prompt] = ...\<close> on a dict that keeps insertion order.\<close>

fun dict_set :: "(string \<times> string) list \<Rightarrow> string \<Rightarrow> string \<Rightarrow> (string \<times> string) list" where
  "dict_set [] k v = [(k, v)]"
| "dict_set ((k', v') # kvs) k v =
     (if k' = k then (k, v) # kvs else (k', v') # dict_set kvs k v)"

text \<open>
  The topic loop, lines 491-724. An exception leaves the loop at once; after a topic
  that succeeded the loop sleeps one second.
\<close>

fun process_prompts ::
  "document_text \<Rightarrow> string list \<Rightarrow> (string \<times> string) list \<Rightarrow> world
   \<Rightarrow> (string + (string \<times> string) list) \<times> world" where
  "process_prompts parts [] results w = (Inr results, w)"
| "process_prompts parts (prompt # prompts) results w =
     (case process_prompt parts prompt w of
        (Inl e, w') \<Rightarrow> (Inl e, w')
      | (Inr r, w') \<Rightarrow> process_prompts parts prompts (dict_set results prompt r) (sleep 1 w'))"

datatype doc_result =
    Completed (document_name: string) (document_path: string) (response: string)
              (individual_responses: "(string \<times> string) list")
  | Failed (document_name: string) (document_path: string) (response: string)

text \<open>Lines 476-483: the model is detected once, then the session is reset.\<close>

definition start_session :: "world \<Rightarrow> world" where
  "start_session w =
     (let w1 = (case claude_model w of
                  None \<Rightarrow> (case get_latest_claude_model w of
                              (model, w') \<Rightarrow> w'\<lparr>claude_model := Some model\<rparr>)
                | Some model \<Rightarrow> w)
      in snd (reset_claude_session w1))"

text \<open>
  \<open>process_document_with_claude\<close>, lines 460-744. A failed extraction returns None
  before anything else happens; an exception in the topic loop gives the error record.
  Constructing the client sends nothing and is taken to succeed.
\<close>

definition process_document_with_claude ::
  "string list \<Rightarrow> pdf_file \<Rightarrow> world \<Rightarrow> doc_result option \<times> world" where
  "process_document_with_claude prompts f w =
     (case extract_text_from_file f of
        Inl error \<Rightarrow> (None, w)
      | Inr document_text_parts \<Rightarrow>
          (case process_prompts document_text_parts prompts [] (start_session w) of
             (Inl e, w') \<Rightarrow>
               (Some (Failed (basename (file_path f)) (file_path f) (''Error: '' @ e)), w')
           | (Inr results, w') \<Rightarrow>
               (Some (Completed (basename (file_path f)) (file_path f)
                        (join ''\<newline>\<newline>''
                           (map (\<lambda>(prompt, response). ''## '' @ prompt @ [newline] @ response)
                              results))
                        results), w')))"

text \<open>
  The document loop of \<open>process_documents\<close>, lines 901-920: a result is kept when it is
  not None, and the loop sleeps one second after every document. The list it returns is
  what \<open>create_report_document\<close> is given.
\<close>

fun process_documents ::
  "string list \<Rightarrow> pdf_file list \<Rightarrow> doc_result list \<Rightarrow> world \<Rightarrow> doc_result list \<times> world" where
  "process_documents prompts [] results w = (results, w)"
| "process_documents prompts (f # fs) results w =
     (case process_document_with_claude prompts f w of
        (None, w') \<Rightarrow> process_documents prompts fs results (sleep 1 w')
      | (Some result, w') \<Rightarrow> process_documents prompts fs (results @ [result]) (sleep 1 w'))"

section \<open>Notions the properties are stated with\<close>

text \<open>The events a computation added to the trace, from the state before and after.\<close>

definition issued :: "world \<Rightarrow> world \<Rightarrow> event list" where
  "issued w w' = drop (length (trace w)) (trace w')"

text \<open>
  The cleaned answers of the requests made between two states, in the order of the
  requests; a request that raised has no answer.
\<close>

definition tier_answers :: "world \<Rightarrow> world \<Rightarrow> string list" where
  "tier_answers w w' =
     concat (map (\<lambda>i. case answers w i of Inl e \<Rightarrow> [] | Inr r \<Rightarrow> [normalize r])
               [calls w..<calls w'])"

definition is_request :: "event \<Rightarrow> bool" where
  "is_request ev = (case ev of Sleep n \<Rightarrow> False | _ \<Rightarrow> True)"

text \<open>Two requests with no sleep between them.\<close>

fun adjacent_requests :: "event list \<Rightarrow> bool" where
  "adjacent_requests [] = False"
| "adjacent_requests [e] = False"
| "adjacent_requests (e # e' # es) =
     ((is_request e \<and> is_request e') \<or> adjacent_requests (e' # es))"

text \<open>
  The full text of a sequence of pages: the text of every page followed by the marker of
  the page, in page order. A page that raises when it is loaded has no text.
\<close>

definition full_text :: "(string + string) list \<Rightarrow> string" where
  "full_text pages =
     concat (map (\<lambda>(i, page). case page of
                                 Inl e \<Rightarrow> []
                               | Inr page_text \<Rightarrow> page_text @ page_marker (Suc i))
               (enumerate 0 pages))"

text \<open>
  The merge of the answers of the tiers that were asked: the trimmed answers other than
  the sentinel, joined by a blank line and trimmed; the sentinel when none is left.
\<close>

definition merged_of :: "string list \<Rightarrow> string" where
  "merged_of as =
     (let contents = filter (\<lambda>c. c \<noteq> sentinel) (map strip as)
      in if contents = [] then sentinel else strip (join ''\<newline>\<newline>'' contents))"

text \<open>The same merge without the trimming of the joined text.\<close>

definition merge_as_claimed :: "string list \<Rightarrow> string" where
  "merge_as_claimed as =
     (let contents = filter (\<lambda>c. c \<noteq> sentinel) (map strip as)
      in if contents = [] then sentinel else join ''\<newline>\<newline>'' contents)"

text \<open>
  A processor that has made no request and chosen no model yet, in front of a service
  that gives the listed answers in order and empty text after them.
\<close>

definition replay :: "(string + string) list \<Rightarrow> world" where
  "replay rs = \<lparr>answers = (\<lambda>n. if n < length rs then rs ! n else Inr []),
                calls = 0, trace = [], claude_model = None\<rparr>"

text \<open>A file whose text extraction succeeds.\<close>

definition extracted :: "pdf_file \<Rightarrow> bool" where
  "extracted f = (case extract_text_from_file f of Inl e \<Rightarrow> False | Inr parts \<Rightarrow> True)"

section \<open>Facts about trimming\<close>

lemma sublist_strip: "sublist (strip s) s"
proof -
  have "sublist (dropWhile isspace (rev (dropWhile isspace s))) (rev (dropWhile isspace s))"
    by (rule sublist_dropWhile)
  then have "sublist (strip s) (dropWhile isspace s)"
    unfolding strip_def by (simp add: sublist_rev_left)
  moreover have "sublist (dropWhile isspace s) s"
    by (rule sublist_dropWhile)
  ultimately show ?thesis
    by (rule sublist_order.order_trans)
qed

lemma dropWhile_keeps:
  assumes "p \<noteq> []" and "\<not> P (hd p)"
  shows "\<exists>pre'. dropWhile P (pre @ p @ post) = pre' @ p @ post"
proof (induction pre)
  case Nil
  from assms have "dropWhile P (p @ post) = p @ post"
    by (cases p) simp_all
  then show ?case by (intro exI [of _ "[]"]) simp
next
  case (Cons a pre)
  show ?case
  proof (cases "P a")
    case True
    with Cons show ?thesis by simp
  next
    case False
    then show ?thesis by (intro exI [of _ "a # pre"]) simp
  qed
qed

lemma sublist_into_strip:
  assumes sub: "sublist p s" and ne: "p \<noteq> []"
    and h: "\<not> isspace (hd p)" and l: "\<not> isspace (last p)"
  shows "sublist p (strip s)"
proof -
  from sub obtain pre post where s: "s = pre @ p @ post"
    by (auto simp: sublist_def)
  from dropWhile_keeps [where P = isspace, OF ne h] obtain pre' where
    d1: "dropWhile isspace s = pre' @ p @ post"
    unfolding s by blast
  have "rev p \<noteq> []" "\<not> isspace (hd (rev p))"
    using ne l by (simp_all add: hd_rev)
  from dropWhile_keeps [where P = isspace, OF this] obtain post' where
    d2: "dropWhile isspace (rev post @ rev p @ rev pre') = post' @ rev p @ rev pre'"
    by blast
  have "strip s = pre' @ p @ rev post'"
    unfolding strip_def d1 using d2 by simp
  then show ?thesis by simp
qed

lemma strip_eq_sentinel_sublist: "strip s = ''N/A'' \<Longrightarrow> sublist ''N/A'' s"
  using sublist_strip [of s] by simp

lemma strip_sentinel: "strip ''N/A'' = ''N/A''"
  by code_simp

lemma strip_normalize_sentinel:
  "strip (normalize r) = ''N/A'' \<longleftrightarrow> normalize r = ''N/A''"
proof
  assume a: "strip (normalize r) = ''N/A''"
  show "normalize r = ''N/A''"
  proof (rule ccontr)
    assume n: "normalize r \<noteq> ''N/A''"
    then have "normalize r = r" and "\<not> sublist ''N/A'' r"
      by (auto simp: normalize_def split: if_splits)
    with a strip_eq_sentinel_sublist [of r] show False by simp
  qed
next
  assume "normalize r = ''N/A''"
  then show "strip (normalize r) = ''N/A''" by (simp add: strip_sentinel)
qed

lemma dropWhile_all: "\<forall>c\<in>set ws. P c \<Longrightarrow> dropWhile P (ws @ s) = dropWhile P s"
  by (induction ws) simp_all

lemma strip_append_spaces:
  assumes "\<forall>c\<in>set ws. isspace c"
  shows "strip (s @ ws) = strip s"
proof (cases "\<forall>c\<in>set s. isspace c")
  case True
  have nil: "dropWhile isspace xs = []" if "\<forall>c\<in>set xs. isspace c" for xs
    using that by simp
  from True assms have "\<forall>c\<in>set (s @ ws). isspace c"
    by auto
  then have "dropWhile isspace (s @ ws) = []"
    by (rule nil)
  moreover from True have "dropWhile isspace s = []"
    by (rule nil)
  ultimately show ?thesis by (simp only: strip_def)
next
  case False
  then obtain x where "x \<in> set s" and "\<not> isspace x" by blast
  then have "dropWhile isspace (s @ ws) = dropWhile isspace s @ ws"
    by (rule dropWhile_append1)
  moreover have "dropWhile isspace (rev ws @ rev (dropWhile isspace s))
      = dropWhile isspace (rev (dropWhile isspace s))"
    using assms by (intro dropWhile_all) simp
  ultimately show ?thesis by (simp add: strip_def)
qed

lemma join_snoc: "xs \<noteq> [] \<Longrightarrow> join sep (xs @ [y]) = join sep xs @ sep @ y"
  by (induction sep xs rule: join.induct) simp_all

lemma blank_line_spaces: "\<forall>c\<in>set ''\<newline>\<newline>''. isspace c"
  by code_simp

lemma strip_join_snoc_empty:
  "strip (join ''\<newline>\<newline>'' (xs @ [[]])) = strip (join ''\<newline>\<newline>'' xs)"
proof (cases "xs = []")
  case True
  then show ?thesis by simp
next
  case False
  then have "join ''\<newline>\<newline>'' (xs @ [[]]) = join ''\<newline>\<newline>'' xs @ ''\<newline>\<newline>''"
    by (simp add: join_snoc)
  then show ?thesis
    using strip_append_spaces [OF blank_line_spaces] by simp
qed

lemma strip_Nil: "strip [] = []"
  by (simp add: strip_def)

section \<open>The runs of one topic of an expert report\<close>

lemma ask_Inr:
  "ask t prompt c w = (Inr a, w') \<longleftrightarrow>
     (\<exists>r. answers w (calls w) = Inr r \<and> a = normalize r
        \<and> w' = w\<lparr>calls := Suc (calls w), trace := trace w @ [Ask t prompt c]\<rparr>)"
  by (auto simp: ask_def messages_create_def split: sum.splits)

lemma ask_Inl:
  "ask t prompt c w = (Inl e, w') \<longleftrightarrow>
     (answers w (calls w) = Inl e
        \<and> w' = w\<lparr>calls := Suc (calls w), trace := trace w @ [Ask t prompt c]\<rparr>)"
  by (auto simp: ask_def messages_create_def split: sum.splits)

lemmas topic_defs =
  expert_topic_def secondary_step_def tertiary_step_def ask_def messages_create_def sleep_def

lemma expert_primary_fails:
  assumes "answers w (calls w) = Inl e"
  shows "expert_topic p s t prompt w =
           (Inl e, w\<lparr>calls := Suc (calls w), trace := trace w @ [Ask Primary prompt p]\<rparr>)"
  using assms by (simp add: topic_defs)

lemma expert_primary_only:
  assumes "answers w (calls w) = Inr r1"
    and "\<not> (strip (normalize r1) = ''N/A'' \<or> length (strip (normalize r1)) < 100)"
  shows "expert_topic p s t prompt w =
           (Inr (combine_results (normalize r1) [] []),
            w\<lparr>calls := Suc (calls w), trace := trace w @ [Ask Primary prompt p]\<rparr>)"
  using assms by (simp add: topic_defs strip_Nil)

lemma expert_secondary_fails:
  assumes "answers w (calls w) = Inr r1"
    and "strip (normalize r1) = ''N/A'' \<or> length (strip (normalize r1)) < 100"
    and "answers w (Suc (calls w)) = Inl e"
  shows "expert_topic p s t prompt w =
           (Inl e, w\<lparr>calls := Suc (Suc (calls w)),
                     trace := trace w @ [Ask Primary prompt p, Ask Secondary prompt s]\<rparr>)"
  using assms by (auto simp add: topic_defs)

lemma expert_two_tiers:
  assumes "answers w (calls w) = Inr r1"
    and "strip (normalize r1) = ''N/A'' \<or> length (strip (normalize r1)) < 100"
    and "answers w (Suc (calls w)) = Inr r2"
    and "\<not> ((strip (normalize r1) = ''N/A'' \<and> strip (normalize r2) = ''N/A'')
           \<or> (length (strip (normalize r1)) < 100 \<and> length (strip (normalize r2)) < 100
               \<and> strip (normalize r2) = ''N/A''))"
  shows "expert_topic p s t prompt w =
           (Inr (combine_results (normalize r1) (normalize r2) []),
            w\<lparr>calls := Suc (Suc (calls w)),
              trace := trace w @ [Ask Primary prompt p, Ask Secondary prompt s, Sleep 1]\<rparr>)"
  using assms by (auto simp add: topic_defs)

lemma expert_tertiary_fails:
  assumes "answers w (calls w) = Inr r1"
    and "strip (normalize r1) = ''N/A'' \<or> length (strip (normalize r1)) < 100"
    and "answers w (Suc (calls w)) = Inr r2"
    and "(strip (normalize r1) = ''N/A'' \<and> strip (normalize r2) = ''N/A'')
           \<or> (length (strip (normalize r1)) < 100 \<and> length (strip (normalize r2)) < 100
               \<and> strip (normalize r2) = ''N/A'')"
    and "answers w (Suc (Suc (calls w))) = Inl e"
  shows "expert_topic p s t prompt w =
           (Inl e,
            w\<lparr>calls := Suc (Suc (Suc (calls w))),
              trace := trace w @ [Ask Primary prompt p, Ask Secondary prompt s, Sleep 1,
                                  Ask Tertiary prompt t]\<rparr>)"
  using assms by (auto simp add: topic_defs)

lemma expert_three_tiers:
  assumes "answers w (calls w) = Inr r1"
    and "strip (normalize r1) = ''N/A'' \<or> length (strip (normalize r1)) < 100"
    and "answers w (Suc (calls w)) = Inr r2"
    and "(strip (normalize r1) = ''N/A'' \<and> strip (normalize r2) = ''N/A'')
           \<or> (length (strip (normalize r1)) < 100 \<and> length (strip (normalize r2)) < 100
               \<and> strip (normalize r2) = ''N/A'')"
    and "answers w (Suc (Suc (calls w))) = Inr r3"
  shows "expert_topic p s t prompt w =
           (Inr (combine_results (normalize r1) (normalize r2) (normalize r3)),
            w\<lparr>calls := Suc (Suc (Suc (calls w))),
              trace := trace w @ [Ask Primary prompt p, Ask Secondary prompt s, Sleep 1,
                                  Ask Tertiary prompt t, Sleep 1]\<rparr>)"
  using assms by (auto simp add: topic_defs)

lemma issued_extend [simp]:
  "issued w (w\<lparr>calls := n, trace := trace w @ evs\<rparr>) = evs"
  by (simp add: issued_def)

lemma sentinel_short: "length (strip ''N/A'') < 100"
  by (simp add: strip_sentinel)

lemma combine_three:
  "combine_results a b c = merged_of [a, b, c]"
  by (simp add: combine_results_def merged_of_def sentinel_def Let_def strip_sentinel)

lemma combine_two:
  assumes "\<not> (strip a = ''N/A'' \<and> strip b = ''N/A'')"
  shows "combine_results a b [] = merged_of [a, b]"
proof -
  let ?F = "filter (\<lambda>c. c \<noteq> ''N/A'') [strip a, strip b]"
  from assms have ne: "?F \<noteq> []" by auto
  have "combine_results a b [] = strip (join ''\<newline>\<newline>'' (?F @ [[]]))"
    using ne by (simp add: combine_results_def Let_def strip_Nil)
  also have "\<dots> = strip (join ''\<newline>\<newline>'' ?F)"
    by (rule strip_join_snoc_empty)
  finally show ?thesis
    using ne by (simp add: merged_of_def sentinel_def Let_def)
qed

lemma combine_one:
  assumes "strip a \<noteq> ''N/A''"
  shows "combine_results a [] [] = merged_of [a]"
proof -
  have "combine_results a [] [] = strip (join ''\<newline>\<newline>'' (([strip a] @ [[]]) @ [[]]))"
    using assms by (simp add: combine_results_def Let_def strip_Nil)
  also have "\<dots> = strip (join ''\<newline>\<newline>'' ([strip a] @ [[]]))"
    by (rule strip_join_snoc_empty)
  also have "\<dots> = strip (join ''\<newline>\<newline>'' [strip a])"
    by (rule strip_join_snoc_empty)
  finally show ?thesis
    using assms by (simp add: merged_of_def sentinel_def Let_def)
qed

lemma tier_answers_1:
  "answers w (calls w) = Inr r1 \<Longrightarrow> calls w' = Suc (calls w) \<Longrightarrow> tier_answers w w' = [normalize r1]"
  by (simp add: tier_answers_def)

lemma tier_answers_2:
  "answers w (calls w) = Inr r1 \<Longrightarrow> answers w (Suc (calls w)) = Inr r2 \<Longrightarrow> calls w' = Suc (Suc (calls w))
   \<Longrightarrow> tier_answers w w' = [normalize r1, normalize r2]"
  by (simp add: tier_answers_def)

lemma tier_answers_3:
  "answers w (calls w) = Inr r1 \<Longrightarrow> answers w (Suc (calls w)) = Inr r2 \<Longrightarrow> answers w (Suc (Suc (calls w))) = Inr r3 \<Longrightarrow> calls w' = Suc (Suc (Suc (calls w)))
   \<Longrightarrow> tier_answers w w' = [normalize r1, normalize r2, normalize r3]"
  by (simp add: tier_answers_def)

section \<open>Escalation\<close>

text \<open>
  C1. In the extraction of one topic of an expert report whose primary request is
  answered, the secondary tier is asked exactly when the cleaned primary answer is the
  sentinel or its trimmed length is below 100; otherwise the primary request is the only
  event of the extraction, so that neither the secondary nor the tertiary tier is asked.
\<close>

theorem secondary_tier_gate:
  assumes r1: "answers w (calls w) = Inr r"
  shows "((Ask Secondary prompt s \<in> set (issued w (snd (expert_topic p s t prompt w))))
            \<longleftrightarrow> (normalize r = sentinel \<or> length (strip (normalize r)) < 100))
       \<and> (normalize r \<noteq> sentinel \<and> 100 \<le> length (strip (normalize r))
            \<longrightarrow> issued w (snd (expert_topic p s t prompt w)) = [Ask Primary prompt p])"
proof -
  let ?a = "normalize r"
  let ?esc = "strip ?a = ''N/A'' \<or> length (strip ?a) < 100"
  have cond: "?esc \<longleftrightarrow> (?a = sentinel \<or> length (strip ?a) < 100)"
    by (simp add: strip_normalize_sentinel sentinel_def)
  show ?thesis
  proof (cases ?esc)
    case False
    from expert_primary_only [OF r1 False, of p s t prompt] False cond
    show ?thesis by auto
  next
    case esc: True
    have "Ask Secondary prompt s \<in> set (issued w (snd (expert_topic p s t prompt w)))"
    proof (cases "answers w (Suc (calls w))")
      case (Inl e)
      from expert_secondary_fails [OF r1 esc Inl, of p s t prompt] show ?thesis by simp
    next
      case r2: (Inr r2)
      let ?b = "normalize r2"
      show ?thesis
      proof (cases "(strip ?a = ''N/A'' \<and> strip ?b = ''N/A'')
           \<or> (length (strip ?a) < 100 \<and> length (strip ?b) < 100 \<and> strip ?b = ''N/A'')")
        case False
        from expert_two_tiers [OF r1 esc r2 False, of p s t prompt] show ?thesis by simp
      next
        case True
        show ?thesis
        proof (cases "answers w (Suc (Suc (calls w)))")
          case (Inl e)
          from expert_tertiary_fails [OF r1 esc r2 True Inl, of p s t prompt]
          show ?thesis by simp
        next
          case (Inr r3)
          from expert_three_tiers [OF r1 esc r2 True Inr, of p s t prompt]
          show ?thesis by simp
        qed
      qed
    qed
    with esc cond show ?thesis
      by (auto simp: sentinel_def strip_sentinel)
  qed
qed

theorem secondary_tier_gate_witness:
  "answers (replay [Inr ''N/A'', Inr ''N/A'', Inr ''B'']) (calls (replay [Inr ''N/A'', Inr ''N/A'', Inr ''B''])) = Inr ''N/A''
   \<and> Ask Secondary ''Taxes'' ''s'' \<in> set (issued (replay [Inr ''N/A'', Inr ''N/A'', Inr ''B''])
        (snd (expert_topic ''p'' ''s'' ''t'' ''Taxes'' (replay [Inr ''N/A'', Inr ''N/A'', Inr ''B'']))))"
proof -
  let ?w = "replay [Inr ''N/A'', Inr ''N/A'', Inr ''B'']"
  have a: "answers ?w (calls ?w) = Inr ''N/A''"
    by (simp add: replay_def)
  have n: "normalize ''N/A'' = sentinel"
    by code_simp
  from secondary_tier_gate [OF a, of "''Taxes''" "''s''" "''p''" "''t''"] n a
  show ?thesis by simp
qed

text \<open>
  C2. In an extraction in which the secondary tier was asked and answered, the tertiary
  tier is asked exactly when both cleaned answers are the sentinel, or both trimmed
  lengths are below 100 and the secondary answer is the sentinel; when both are the
  sentinel the requests of the extraction are the three tier requests.
\<close>

theorem tertiary_tier_gate:
  assumes r1: "answers w (calls w) = Inr r1"
    and r2: "answers w (Suc (calls w)) = Inr r2"
    and sec: "Ask Secondary prompt s \<in> set (issued w (snd (expert_topic p s t prompt w)))"
  shows "((Ask Tertiary prompt t \<in> set (issued w (snd (expert_topic p s t prompt w))))
            \<longleftrightarrow> ((normalize r1 = sentinel \<and> normalize r2 = sentinel)
                 \<or> (length (strip (normalize r1)) < 100 \<and> length (strip (normalize r2)) < 100
                     \<and> normalize r2 = sentinel)))
       \<and> (normalize r1 = sentinel \<and> normalize r2 = sentinel
            \<longrightarrow> filter is_request (issued w (snd (expert_topic p s t prompt w)))
                 = [Ask Primary prompt p, Ask Secondary prompt s, Ask Tertiary prompt t])"
proof -
  let ?a = "normalize r1" and ?b = "normalize r2"
  let ?esc = "strip ?a = ''N/A'' \<or> length (strip ?a) < 100"
  let ?esc3 = "(strip ?a = ''N/A'' \<and> strip ?b = ''N/A'')
           \<or> (length (strip ?a) < 100 \<and> length (strip ?b) < 100 \<and> strip ?b = ''N/A'')"
  have cond: "?esc3 \<longleftrightarrow> ((?a = sentinel \<and> ?b = sentinel)
                 \<or> (length (strip ?a) < 100 \<and> length (strip ?b) < 100 \<and> ?b = sentinel))"
    by (simp add: strip_normalize_sentinel sentinel_def)
  have esc: ?esc
  proof (rule ccontr)
    assume "\<not> ?esc"
    from expert_primary_only [OF r1 this, of p s t prompt] sec show False by simp
  qed
  show ?thesis
  proof (cases ?esc3)
    case False
    from expert_two_tiers [OF r1 esc r2 False, of p s t prompt] False cond
    show ?thesis by auto
  next
    case True
    have "Ask Tertiary prompt t \<in> set (issued w (snd (expert_topic p s t prompt w)))
        \<and> filter is_request (issued w (snd (expert_topic p s t prompt w)))
                 = [Ask Primary prompt p, Ask Secondary prompt s, Ask Tertiary prompt t]"
    proof (cases "answers w (Suc (Suc (calls w)))")
      case (Inl e)
      from expert_tertiary_fails [OF r1 esc r2 True Inl, of p s t prompt]
      show ?thesis by (simp add: is_request_def)
    next
      case (Inr r3)
      from expert_three_tiers [OF r1 esc r2 True Inr, of p s t prompt]
      show ?thesis by (simp add: is_request_def)
    qed
    with True cond show ?thesis by simp
  qed
qed

theorem tertiary_tier_gate_witness:
  "Ask Tertiary ''Taxes'' ''t'' \<in> set (issued (replay [Inr ''N/A'', Inr ''N/A'', Inr ''B''])
        (snd (expert_topic ''p'' ''s'' ''t'' ''Taxes'' (replay [Inr ''N/A'', Inr ''N/A'', Inr ''B'']))))
   \<and> filter is_request (issued (replay [Inr ''N/A'', Inr ''N/A'', Inr ''B''])
        (snd (expert_topic ''p'' ''s'' ''t'' ''Taxes'' (replay [Inr ''N/A'', Inr ''N/A'', Inr ''B'']))))
      = [Ask Primary ''Taxes'' ''p'', Ask Secondary ''Taxes'' ''s'', Ask Tertiary ''Taxes'' ''t'']"
proof -
  let ?w = "replay [Inr ''N/A'', Inr ''N/A'', Inr ''B'']"
  have a: "answers ?w (calls ?w) = Inr ''N/A''"
    and b: "answers ?w (Suc (calls ?w)) = Inr ''N/A''"
    by (simp_all add: replay_def)
  have n: "normalize ''N/A'' = sentinel"
    by code_simp
  have s: "Ask Secondary ''Taxes'' ''s'' \<in> set (issued ?w (snd (expert_topic ''p'' ''s'' ''t'' ''Taxes'' ?w)))"
    by code_simp
  from tertiary_tier_gate [OF a b s] n
  show ?thesis by simp
qed

section \<open>Merge\<close>

text \<open>
  C3. The merged content of a topic is the blank-line join of the trimmed
  answers of the tiers that were asked, in tier order and without those equal to the
  sentinel, trimmed once more as a whole; it is the sentinel when every answer is the
  sentinel.
\<close>

theorem merged_content:
  assumes run: "expert_topic p s t prompt w = (Inr merged, w')"
  shows "merged = merged_of (tier_answers w w')"
proof (cases "answers w (calls w)")
  case (Inl e)
  from expert_primary_fails [OF Inl] run show ?thesis by simp
next
  case r1: (Inr r1)
  let ?a = "normalize r1"
  show ?thesis
  proof (cases "strip ?a = ''N/A'' \<or> length (strip ?a) < 100")
    case False
    from expert_primary_only [OF r1 False] run
    have m: "merged = combine_results ?a [] []" and c: "calls w' = Suc (calls w)"
      by auto
    from False have "strip ?a \<noteq> ''N/A''" by simp
    with m have "merged = merged_of [?a]" by (simp add: combine_one)
    with tier_answers_1 [OF r1 c] show ?thesis by simp
  next
    case esc: True
    show ?thesis
    proof (cases "answers w (Suc (calls w))")
      case (Inl e)
      from expert_secondary_fails [OF r1 esc Inl] run show ?thesis by simp
    next
      case r2: (Inr r2)
      let ?b = "normalize r2"
      show ?thesis
      proof (cases "(strip ?a = ''N/A'' \<and> strip ?b = ''N/A'')
           \<or> (length (strip ?a) < 100 \<and> length (strip ?b) < 100 \<and> strip ?b = ''N/A'')")
        case False
        from expert_two_tiers [OF r1 esc r2 False] run
        have m: "merged = combine_results ?a ?b []" and c: "calls w' = Suc (Suc (calls w))"
          by auto
        from False have "\<not> (strip ?a = ''N/A'' \<and> strip ?b = ''N/A'')" by blast
        with m have "merged = merged_of [?a, ?b]" by (simp add: combine_two)
        with tier_answers_2 [OF r1 r2 c] show ?thesis by simp
      next
        case True
        show ?thesis
        proof (cases "answers w (Suc (Suc (calls w)))")
          case (Inl e)
          from expert_tertiary_fails [OF r1 esc r2 True Inl] run show ?thesis by simp
        next
          case r3: (Inr r3)
          from expert_three_tiers [OF r1 esc r2 True r3] run
          have m: "merged = combine_results ?a ?b (normalize r3)"
            and c: "calls w' = Suc (Suc (Suc (calls w)))"
            by auto
          from m have "merged = merged_of [?a, ?b, normalize r3]" by (simp add: combine_three)
          with tier_answers_3 [OF r1 r2 r3 c] show ?thesis by simp
        qed
      qed
    qed
  qed
qed

theorem merged_content_witness:
  "fst (expert_topic ''p'' ''s'' ''t'' ''Taxes'' (replay [Inr ''A'', Inr ''N/A'', Inr ''B''])) = Inr ''A\<newline>\<newline>B''
   \<and> ''A\<newline>\<newline>B'' = merged_of (tier_answers (replay [Inr ''A'', Inr ''N/A'', Inr ''B''])
        (snd (expert_topic ''p'' ''s'' ''t'' ''Taxes'' (replay [Inr ''A'', Inr ''N/A'', Inr ''B'']))))"
proof -
  let ?w = "replay [Inr ''A'', Inr ''N/A'', Inr ''B'']"
  have f: "fst (expert_topic ''p'' ''s'' ''t'' ''Taxes'' ?w) = Inr ''A\<newline>\<newline>B''"
    by code_simp
  then have run: "expert_topic ''p'' ''s'' ''t'' ''Taxes'' ?w
      = (Inr ''A\<newline>\<newline>B'', snd (expert_topic ''p'' ''s'' ''t'' ''Taxes'' ?w))"
    by (metis prod.collapse)
  from merged_content [OF run] f show ?thesis by simp
qed

text \<open>
  Without the final trimming the statement fails: a primary answer of one space and a
  secondary answer \<open>foo\<close> merge to \<open>foo\<close>, not to a blank line followed by \<open>foo\<close>.
\<close>

theorem merged_content_counterexample:
  "fst (expert_topic ''p'' ''s'' ''t'' ''Taxes'' (replay [Inr '' '', Inr ''foo'']))
     \<noteq> Inr (merge_as_claimed (tier_answers (replay [Inr '' '', Inr ''foo''])
              (snd (expert_topic ''p'' ''s'' ''t'' ''Taxes'' (replay [Inr '' '', Inr ''foo''])))))"
  by code_simp

section \<open>Response normalisation: the sentinel\<close>

lemma sentinel_into_strip: "sublist ''N/A'' s \<Longrightarrow> sublist ''N/A'' (strip s)"
  by (rule sublist_into_strip) (simp_all add: isspace_def)

text \<open>
  C5. An answer that contains the sentinel anywhere is cleaned to the bare sentinel, by
  \<open>clean_claude_response\<close> and by the cleaning step of the tier answers alike, and
  the sentinel itself is left as it is by both.
\<close>

theorem sentinel_anywhere:
  "(sublist sentinel raw \<longrightarrow> clean_claude_response raw = sentinel \<and> normalize raw = sentinel)
   \<and> clean_claude_response sentinel = sentinel \<and> normalize sentinel = sentinel"
proof -
  have "clean_claude_response raw = ''N/A''" if "sublist ''N/A'' raw"
    using sentinel_into_strip [OF that] by (simp add: clean_claude_response_def Let_def)
  moreover have "normalize raw = ''N/A''" if "sublist ''N/A'' raw"
    using that by (simp add: normalize_def)
  moreover have "clean_claude_response ''N/A'' = ''N/A''"
    by (simp add: clean_claude_response_def strip_sentinel)
  moreover have "normalize ''N/A'' = ''N/A''"
    by (simp add: normalize_def)
  ultimately show ?thesis
    by (simp add: sentinel_def)
qed

theorem sentinel_anywhere_witness:
  "sublist sentinel ''I found nothing, so N/A.''
   \<and> clean_claude_response ''I found nothing, so N/A.'' = sentinel
   \<and> normalize ''I found nothing, so N/A.'' = sentinel"
proof -
  have s: "sublist sentinel ''I found nothing, so N/A.''"
    by code_simp
  with sentinel_anywhere [of "''I found nothing, so N/A.''"] show ?thesis
    by simp
qed

section \<open>Response normalisation: the patterns\<close>

lemma re_searchI:
  assumes "match_here p (ph @ post)"
  shows "re_search p (pre @ ph @ post)"
proof -
  have "length pre \<in> set [0..<Suc (length (pre @ ph @ post))]" by simp
  moreover have "match_here p (drop (length pre) (pre @ ph @ post))"
    using assms by simp
  ultimately show ?thesis
    unfolding re_search_def list_ex_iff by blast
qed

lemma match_lit: "match_here (Lit l # as) (l @ rest) = match_here as rest"
  by simp

lemma match_group:
  assumes "x \<in> set g" and "match_here as rest"
  shows "match_here (Group g # as) (x @ rest)"
proof -
  have "prefix x (x @ rest) \<and> match_here as (drop (length x) (x @ rest))"
    using assms(2) by simp
  with assms(1) show ?thesis
    unfolding match_here.simps list_ex_iff by blast
qed

lemma match_dot_star:
  assumes "newline \<notin> set u" and "match_here as rest"
  shows "match_here (Dot_star # as) (u @ rest)"
proof -
  have "takeWhile (\<lambda>c. c \<noteq> newline) (u @ rest) = u @ takeWhile (\<lambda>c. c \<noteq> newline) rest"
    using assms(1) by (intro takeWhile_append2) auto
  then have "length u \<in> set [0..<Suc (length (takeWhile (\<lambda>c. c \<noteq> newline) (u @ rest)))]"
    by simp
  moreover have "match_here as (drop (length u) (u @ rest))"
    using assms(2) by simp
  ultimately show ?thesis
    unfolding match_here.simps list_ex_iff by blast
qed

lemma is_empty_responseI:
  assumes pat: "pattern \<in> set empty_patterns"
    and m: "\<And>post. match_here pattern (phrase @ post)"
    and ne: "phrase \<noteq> []" and h: "\<not> isspace (hd phrase)" and l: "\<not> isspace (last phrase)"
    and sub: "sublist phrase (lower raw)"
  shows "is_empty_response raw"
proof -
  from sublist_into_strip [OF sub ne h l]
  obtain pre post where "strip (lower raw) = pre @ phrase @ post"
    by (auto simp: sublist_def)
  with m [of post] have "re_search pattern (strip (lower raw))"
    by (simp add: re_searchI)
  with pat show ?thesis
    by (auto simp: is_empty_response_def list_ex_iff)
qed

lemma there_is_no:
  assumes "x \<in> set [''is'', ''are'', ''was'', ''were'']"
    and "sublist (''there '' @ x @ '' no'') (lower raw)"
  shows "is_empty_response raw"
proof (rule is_empty_responseI [OF _ _ _ _ _ assms(2)])
  show "[Lit ''there '', Group [''is'', ''are'', ''was'', ''were''], Lit '' no''] \<in> set empty_patterns"
    by (simp add: empty_patterns_def)
  show "match_here [Lit ''there '', Group [''is'', ''are'', ''was'', ''were''], Lit '' no'']
          ((''there '' @ x @ '' no'') @ post)" for post
    using assms(1) by (simp only: append_assoc match_lit match_group match_here.simps(1))
  show "''there '' @ x @ '' no'' \<noteq> []" by simp
  show "\<not> isspace (hd (''there '' @ x @ '' no''))" by (simp add: isspace_def)
  show "\<not> isspace (last (''there '' @ x @ '' no''))" by (simp add: isspace_def)
qed

lemma i_find:
  assumes "x \<in> set [''do not'', ''don't'', ''cannot'', ''can't'']"
    and "sublist (''i '' @ x @ '' find'') (lower raw)"
  shows "is_empty_response raw"
proof (rule is_empty_responseI [OF _ _ _ _ _ assms(2)])
  show "[Lit ''i '', Group [''do not'', ''don't'', ''cannot'', ''can't''], Lit '' find'']
          \<in> set empty_patterns"
    by (simp add: empty_patterns_def)
  show "match_here [Lit ''i '', Group [''do not'', ''don't'', ''cannot'', ''can't''], Lit '' find'']
          ((''i '' @ x @ '' find'') @ post)" for post
    using assms(1) by (simp only: append_assoc match_lit match_group match_here.simps(1))
  show "''i '' @ x @ '' find'' \<noteq> []" by simp
  show "\<not> isspace (hd (''i '' @ x @ '' find''))" by (simp add: isspace_def)
  show "\<not> isspace (last (''i '' @ x @ '' find''))" by (simp add: isspace_def)
qed

lemma document_does_not:
  assumes "x \<in> set [''contain'', ''include'', ''mention'', ''discuss'', ''address'']"
    and "sublist (''the document does not '' @ x) (lower raw)"
  shows "is_empty_response raw"
proof (rule is_empty_responseI [OF _ _ _ _ _ assms(2)])
  show "[Lit ''the document does not '',
         Group [''contain'', ''include'', ''mention'', ''discuss'', ''address'']]
          \<in> set empty_patterns"
    by (simp add: empty_patterns_def)
  have "match_here [Lit ''the document does not '',
         Group [''contain'', ''include'', ''mention'', ''discuss'', ''address'']]
          (''the document does not '' @ x @ post)" for post
    using assms(1) by (simp only: match_lit match_group match_here.simps(1))
  then show "match_here [Lit ''the document does not '',
         Group [''contain'', ''include'', ''mention'', ''discuss'', ''address'']]
          ((''the document does not '' @ x) @ post)" for post
    by (simp only: append_assoc)
  show "''the document does not '' @ x \<noteq> []" by simp
  show "\<not> isspace (hd (''the document does not '' @ x))" by (simp add: isspace_def)
  show "\<not> isspace (last (''the document does not '' @ x))"
    using assms(1) by (auto simp add: isspace_def)
qed

lemma nothing_in_the_document:
  assumes "sublist ''nothing in the document'' (lower raw)"
  shows "is_empty_response raw"
proof (rule is_empty_responseI [OF _ _ _ _ _ assms])
  show "[Lit ''nothing in the document''] \<in> set empty_patterns"
    by (simp add: empty_patterns_def)
  show "match_here [Lit ''nothing in the document''] (''nothing in the document'' @ post)" for post
    by (simp only: match_lit match_here.simps(1))
  show "''nothing in the document'' \<noteq> []" by simp
  show "\<not> isspace (hd ''nothing in the document'')" by (simp add: isspace_def)
  show "\<not> isspace (last ''nothing in the document'')" by (simp add: isspace_def)
qed

lemma no_data_related:
  assumes x: "x \<in> set [''quotes'', ''information'', ''data'', ''content'', ''text'']"
    and y: "y \<in> set [''related'', ''relevant'', ''pertaining'', ''referring'']"
    and sub: "sublist (''no '' @ x @ '' '' @ y) (lower raw)"
  shows "is_empty_response raw"
proof (rule is_empty_responseI [OF _ _ _ _ _ sub])
  let ?p = "[Lit ''no '', Group [''quotes'', ''information'', ''data'', ''content'', ''text''],
        Lit '' '', Group [''related'', ''relevant'', ''pertaining'', ''referring'']]"
  show "?p \<in> set empty_patterns"
    by (simp add: empty_patterns_def)
  have "match_here ?p (''no '' @ x @ '' '' @ y @ post)" for post
    using x y by (simp only: match_lit match_group match_here.simps(1))
  then show "match_here ?p ((''no '' @ x @ '' '' @ y) @ post)" for post
    by (simp only: append_assoc)
  show "''no '' @ x @ '' '' @ y \<noteq> []" by simp
  show "\<not> isspace (hd (''no '' @ x @ '' '' @ y))" by (simp add: isspace_def)
  show "\<not> isspace (last (''no '' @ x @ '' '' @ y))"
    using y by (auto simp add: isspace_def)
qed

lemma based_on_my_review:
  assumes u: "newline \<notin> set u" and v: "newline \<notin> set v"
    and sub: "sublist (''based on my review'' @ u @ ''no'' @ v @ ''found'') (lower raw)"
  shows "is_empty_response raw"
proof (rule is_empty_responseI [OF _ _ _ _ _ sub])
  let ?p = "[Lit ''based on my review'', Dot_star, Lit ''no'', Dot_star, Lit ''found'']"
  show "?p \<in> set empty_patterns"
    by (simp add: empty_patterns_def)
  have "match_here ?p (''based on my review'' @ u @ ''no'' @ v @ ''found'' @ post)" for post
    using u v by (simp only: match_lit match_dot_star match_here.simps(1) not_False_eq_True)
  then show "match_here ?p ((''based on my review'' @ u @ ''no'' @ v @ ''found'') @ post)" for post
    by (simp only: append_assoc)
  show "''based on my review'' @ u @ ''no'' @ v @ ''found'' \<noteq> []" by simp
  show "\<not> isspace (hd (''based on my review'' @ u @ ''no'' @ v @ ''found''))"
    by (simp add: isspace_def)
  show "\<not> isspace (last (''based on my review'' @ u @ ''no'' @ v @ ''found''))"
    by (simp add: isspace_def)
qed

text \<open>
  What the table does match: \<open>i cannot find\<close> or \<open>i can't find\<close>, \<open>there is no\<close> or
  \<open>there are no\<close>, \<open>the document does not contain\<close> or \<open>the document does not mention\<close>,
  \<open>nothing in the document\<close>, \<open>no information\<close>, \<open>no quotes\<close> or \<open>no data\<close> followed by
  \<open>related\<close>, \<open>relevant\<close>, \<open>pertaining\<close> or \<open>referring\<close>, and \<open>based on my review\<close>
  followed on the same line by \<open>no\<close> and then \<open>found\<close>.
\<close>

lemma matched_phrasings:
  assumes phrase:
    "(\<exists>x\<in>set [''cannot'', ''can't'']. phrase = ''i '' @ x @ '' find'')
     \<or> (\<exists>x\<in>set [''is'', ''are'']. phrase = ''there '' @ x @ '' no'')
     \<or> (\<exists>x\<in>set [''contain'', ''mention'']. phrase = ''the document does not '' @ x)
     \<or> phrase = ''nothing in the document''
     \<or> (\<exists>x\<in>set [''information'', ''quotes'', ''data''].
          \<exists>y\<in>set [''related'', ''relevant'', ''pertaining'', ''referring''].
            phrase = ''no '' @ x @ '' '' @ y)
     \<or> (\<exists>u v. newline \<notin> set u \<and> newline \<notin> set v
          \<and> phrase = ''based on my review'' @ u @ ''no'' @ v @ ''found'')"
    and sub: "sublist phrase (lower raw)"
  shows "is_empty_response raw \<and> normalize raw = sentinel"
proof -
  from phrase consider
      (find) x where "x \<in> set [''cannot'', ''can't'']" "phrase = ''i '' @ x @ '' find''"
    | (there) x where "x \<in> set [''is'', ''are'']" "phrase = ''there '' @ x @ '' no''"
    | (doc) x where "x \<in> set [''contain'', ''mention'']"
        "phrase = ''the document does not '' @ x"
    | (nothing) "phrase = ''nothing in the document''"
    | (no) x y where "x \<in> set [''information'', ''quotes'', ''data'']"
        "y \<in> set [''related'', ''relevant'', ''pertaining'', ''referring'']"
        "phrase = ''no '' @ x @ '' '' @ y"
    | (review) u v where "newline \<notin> set u" "newline \<notin> set v"
        "phrase = ''based on my review'' @ u @ ''no'' @ v @ ''found''"
    by blast
  then have "is_empty_response raw"
  proof cases
    case find
    then have "x \<in> set [''do not'', ''don't'', ''cannot'', ''can't'']" by auto
    with find sub show ?thesis by (metis i_find)
  next
    case there
    then have "x \<in> set [''is'', ''are'', ''was'', ''were'']" by auto
    with there sub show ?thesis by (metis there_is_no)
  next
    case doc
    then have "x \<in> set [''contain'', ''include'', ''mention'', ''discuss'', ''address'']" by auto
    with doc sub show ?thesis by (metis document_does_not)
  next
    case nothing
    with sub show ?thesis by (metis nothing_in_the_document)
  next
    case no
    then have "x \<in> set [''quotes'', ''information'', ''data'', ''content'', ''text'']" by auto
    with no sub show ?thesis by (metis no_data_related)
  next
    case review
    with sub show ?thesis by (metis based_on_my_review)
  qed
  then show ?thesis
    by (simp add: normalize_def sentinel_def)
qed

text \<open>
  C4. The answer \<open>No information found.\<close> says that no information was found, and the
  classifier is to recognise it as empty. None of the seven patterns matches it: it is
  not classified as empty, and the cleaning step keeps it as content.
\<close>

theorem bare_no_information_found_is_kept:
  "\<not> is_empty_response ''No information found.''
   \<and> normalize ''No information found.'' = ''No information found.''"
  by code_simp

text \<open>
  C10. The patterns are searched anywhere in the lower-cased answer: there is an answer
  that carries a quotation with its page citation, does not contain the sentinel, and is
  classified as empty and replaced by the sentinel because the quotation itself contains
  \<open>there is no\<close>.
\<close>

theorem quoted_material_erased:
  "\<exists>raw. sublist ''(Page 3)'' raw \<and> sublist ''there is no'' (lower raw)
     \<and> \<not> sublist sentinel raw \<and> is_empty_response raw \<and> normalize raw = sentinel"
proof (intro exI conjI)
  let ?raw = "''\"There is no dispute that he earned $20 per hour.\" (Page 3)''"
  show "sublist ''(Page 3)'' ?raw" by code_simp
  show "sublist ''there is no'' (lower ?raw)" by code_simp
  show "\<not> sublist sentinel ?raw" by code_simp
  show "is_empty_response ?raw" by code_simp
  show "normalize ?raw = sentinel" by code_simp
qed

section \<open>Pacing of the requests\<close>

text \<open>
  C7. When the three tiers of a topic are asked, the events of the extraction are the
  primary request, the secondary request, a sleep, the tertiary request and a sleep: the
  primary and the secondary request follow each other with no sleep between them.
\<close>

theorem no_delay_before_secondary:
  "issued (replay [Inr ''N/A'', Inr ''N/A'', Inr ''N/A''])
     (snd (expert_topic ''p'' ''s'' ''t'' ''Taxes'' (replay [Inr ''N/A'', Inr ''N/A'', Inr ''N/A''])))
   = [Ask Primary ''Taxes'' ''p'', Ask Secondary ''Taxes'' ''s'', Sleep 1,
      Ask Tertiary ''Taxes'' ''t'', Sleep 1]
   \<and> adjacent_requests (issued (replay [Inr ''N/A'', Inr ''N/A'', Inr ''N/A''])
     (snd (expert_topic ''p'' ''s'' ''t'' ''Taxes'' (replay [Inr ''N/A'', Inr ''N/A'', Inr ''N/A'']))))"
  by code_simp

section \<open>Tiering of a document that is not an expert report\<close>

lemma foldl_add_page:
  "foldl (add_page pages) acc xs =
     acc @ concat (map (\<lambda>i. case pages ! i of Inl e \<Rightarrow> [] | Inr page_text \<Rightarrow> page_text @ page_marker (Suc i)) xs)"
  by (induction xs arbitrary: acc) (simp_all add: add_page_def split: sum.splits)

lemma enumerate_take_upt:
  "map f (enumerate 0 (take n pages))
   = map (\<lambda>i. f (i, pages ! i)) [0..<min (length pages) n]"
  by (rule nth_equalityI) (simp_all add: nth_enumerate_eq min.commute)

lemma read_pages_take:
  "read_pages pages 0 (min (length pages) max_pages) = full_text (take max_pages pages)"
  unfolding read_pages_def full_text_def foldl_add_page enumerate_take_upt
  by simp

lemma full_text_snoc:
  "full_text (pages @ [Inr page_text])
   = full_text pages @ page_text @ page_marker (Suc (length pages))"
  by (simp add: full_text_def enumerate_append_eq)

lemma standard_text:
  assumes "contents f = Inr pages" and "\<not> sublist ''Expert Reports'' (file_path f)"
  shows "extract_text_from_pdf f max_pages = Inr (Standard (full_text (take max_pages pages)))"
  using assms by (simp add: extract_text_from_pdf_def read_pages_take)

text \<open>
  C6. For a file whose path does not mark it as an expert report, and that opens, the
  extraction returns one text, and that text is the full text of the first \<open>max_pages\<close>
  pages of the document (250 in the program). It is the full text of the document when
  the document has no more pages than that.
\<close>

theorem standard_document_is_one_tier:
  assumes "contents f = Inr pages" and "\<not> sublist ''Expert Reports'' (file_path f)"
  shows "extract_text_from_pdf f max_pages = Inr (Standard (full_text (take max_pages pages)))
       \<and> (length pages \<le> max_pages
            \<longrightarrow> extract_text_from_pdf f max_pages = Inr (Standard (full_text pages)))"
proof -
  have capped:
    "extract_text_from_pdf f max_pages = Inr (Standard (full_text (take max_pages pages)))"
    using assms by (rule standard_text)
  have "take max_pages pages = pages" if "length pages \<le> max_pages"
    using that by simp
  with capped show ?thesis
    by metis
qed

theorem standard_document_is_one_tier_witness:
  "extract_text_from_pdf
     \<lparr>file_path = ''/cases/Smith/payroll.pdf'',
      contents = Inr [Inr ''a'', Inl ''damaged page'', Inr ''c'']\<rparr> 250
   = Inr (Standard ''a\<newline>--- Page 1 ---\<newline>c\<newline>--- Page 3 ---\<newline>'')"
proof -
  let ?f = "\<lparr>file_path = ''/cases/Smith/payroll.pdf'',
      contents = Inr [Inr ''a'', Inl ''damaged page'', Inr ''c'']\<rparr>"
  have c: "contents ?f = Inr [Inr ''a'', Inl ''damaged page'', Inr ''c'']"
    by simp
  have p: "\<not> sublist ''Expert Reports'' (file_path ?f)"
    by code_simp
  have t: "full_text [Inr ''a'', Inl ''damaged page'', Inr ''c'']
      = ''a\<newline>--- Page 1 ---\<newline>c\<newline>--- Page 3 ---\<newline>''"
    by code_simp
  from standard_document_is_one_tier [OF c p, of 250] t show ?thesis
    by simp
qed

text \<open>
  A document of 251 pages that is not an expert report: the one text returned is not the
  full text of the document, whose last page is never read.
\<close>

theorem standard_document_counterexample:
  "extract_text_from_pdf
     \<lparr>file_path = ''/cases/Smith/payroll.pdf'',
      contents = Inr (replicate 250 (Inr ''a'') @ [Inr ''z''])\<rparr> 250
   \<noteq> Inr (Standard (full_text (replicate 250 (Inr ''a'') @ [Inr ''z''])))"
proof -
  let ?xs = "replicate 250 (Inr ''a'') :: (string + string) list"
  let ?f = "\<lparr>file_path = ''/cases/Smith/payroll.pdf'', contents = Inr (?xs @ [Inr ''z''])\<rparr>"
  have c: "contents ?f = Inr (?xs @ [Inr ''z''])"
    by simp
  have p: "\<not> sublist ''Expert Reports'' (file_path ?f)"
    by code_simp
  have "take 250 (?xs @ [Inr ''z'']) = ?xs"
    by simp
  with standard_text [OF c p, of 250]
  have got: "extract_text_from_pdf ?f 250 = Inr (Standard (full_text ?xs))"
    by (simp only:)
  have "full_text (?xs @ [Inr ''z'']) = full_text ?xs @ ''z'' @ page_marker (Suc (length ?xs))"
    by (rule full_text_snoc)
  then have "full_text ?xs \<noteq> full_text (?xs @ [Inr ''z''])"
    by simp
  with got show ?thesis
    by (simp only: sum.inject document_text.inject not_False_eq_True)
qed

section \<open>Documents whose text cannot be extracted\<close>

lemma document_not_extracted:
  "extract_text_from_file f = Inl e \<Longrightarrow> process_document_with_claude prompts f w = (None, w)"
  by (simp add: process_document_with_claude_def)

lemma document_extracted:
  assumes "extract_text_from_file f = Inr parts"
  shows "\<exists>r. fst (process_document_with_claude prompts f w) = Some r
            \<and> document_path r = file_path f"
  using assms
  by (auto simp: process_document_with_claude_def split: prod.splits sum.splits)

lemma results_paths:
  "map document_path (fst (process_documents prompts fs acc w))
   = map document_path acc @ map file_path (filter extracted fs)"
proof (induction fs arbitrary: acc w)
  case Nil
  then show ?case by simp
next
  case (Cons f fs)
  show ?case
  proof (cases "extract_text_from_file f")
    case (Inl e)
    then have "\<not> extracted f" by (simp add: extracted_def)
    with Cons document_not_extracted [OF Inl, of prompts w] show ?thesis
      by simp
  next
    case (Inr parts)
    then have e: "extracted f" by (simp add: extracted_def)
    from document_extracted [OF Inr, of prompts w] obtain r w'
      where "process_document_with_claude prompts f w = (Some r, w')"
        and "document_path r = file_path f"
      by (metis prod.collapse)
    with Cons e show ?thesis by simp
  qed
qed

text \<open>
  C8. A document whose text extraction fails causes no request and no other
  event, and yields no result: the batch goes on with the results it had, and the
  documents of the results handed to the report are exactly those whose extraction
  succeeded, in batch order.
\<close>

theorem failed_extraction_is_dropped:
  assumes "extract_text_from_file f = Inl e"
  shows "process_document_with_claude prompts f w = (None, w)
       \<and> process_documents prompts (f # fs) results w
           = process_documents prompts fs results (sleep 1 w)
       \<and> map document_path (fst (process_documents prompts (fs1 @ f # fs2) [] w))
           = map file_path (filter extracted (fs1 @ fs2))"
proof -
  from assms have "\<not> extracted f" by (simp add: extracted_def)
  then show ?thesis
    using document_not_extracted [OF assms, of prompts w]
    by (simp add: results_paths)
qed

theorem failed_extraction_is_dropped_witness:
  "extract_text_from_file \<lparr>file_path = ''/cases/Smith/wages.pdf'', contents = Inl ''cannot open file''\<rparr>
     = Inl ''Error extracting text: cannot open file''
   \<and> process_document_with_claude [''Taxes'']
        \<lparr>file_path = ''/cases/Smith/wages.pdf'', contents = Inl ''cannot open file''\<rparr> (replay [])
     = (None, replay [])"
proof -
  let ?f = "\<lparr>file_path = ''/cases/Smith/wages.pdf'', contents = Inl ''cannot open file''\<rparr>"
  have e: "extract_text_from_file ?f = Inl ''Error extracting text: cannot open file''"
    by code_simp
  from failed_extraction_is_dropped [OF e, of "[''Taxes'']" "replay []"] e
  show ?thesis by simp
qed

text \<open>
  A batch of one file that cannot be opened ends with an empty list of results: no
  error record of the document reaches the report.
\<close>

theorem failed_extraction_counterexample:
  "extract_text_from_file \<lparr>file_path = ''/cases/Smith/wages.pdf'', contents = Inl ''cannot open file''\<rparr>
     = Inl ''Error extracting text: cannot open file''
   \<and> fst (process_documents [''Taxes'']
        [\<lparr>file_path = ''/cases/Smith/wages.pdf'', contents = Inl ''cannot open file''\<rparr>] []
        (replay [])) = []"
  by code_simp

section \<open>A request that fails during a topic\<close>

lemma expert_topic_raises:
  assumes "expert_topic p s t prompt w = (Inl e, w')"
  shows "trace w' \<noteq> [] \<and> is_request (last (trace w')) \<and> 0 < calls w'
       \<and> answers w' (calls w' - 1) = Inl e"
  using assms
  by (auto simp: topic_defs is_request_def split: sum.splits if_splits prod.splits)

lemma process_prompt_raises:
  assumes "process_prompt parts prompt w = (Inl e, w')"
  shows "trace w' \<noteq> [] \<and> is_request (last (trace w')) \<and> 0 < calls w'
       \<and> answers w' (calls w' - 1) = Inl e"
proof (cases parts)
  case (Expert p s t)
  with assms expert_topic_raises show ?thesis by simp
next
  case (Standard c)
  with assms show ?thesis
    by (auto simp: standard_topic_def ask_def messages_create_def is_request_def
        split: sum.splits)
qed

lemma process_prompts_raise:
  assumes "process_prompts parts ts1 res w = (Inr res1, w1)"
    and "process_prompt parts t w1 = (Inl e, w2)"
  shows "process_prompts parts (ts1 @ t # ts2) res w = (Inl e, w2)"
  using assms
proof (induction ts1 arbitrary: res w)
  case Nil
  then show ?case by simp
next
  case (Cons a ts1)
  then show ?case
    by (auto split: prod.splits sum.splits)
qed

lemma process_documents_append:
  "process_documents prompts (fs1 @ fs2) acc w
   = (case process_documents prompts fs1 acc w of
        (acc', w') \<Rightarrow> process_documents prompts fs2 acc' w')"
  by (induction fs1 arbitrary: acc w) (auto split: prod.splits option.splits)

lemma process_documents_acc:
  "process_documents prompts fs acc w
   = (acc @ fst (process_documents prompts fs [] w), snd (process_documents prompts fs [] w))"
proof (induction fs arbitrary: acc w)
  case Nil
  then show ?case by simp
next
  case (Cons f fs)
  show ?case
  proof (cases "process_document_with_claude prompts f w")
    case (Pair result w')
    show ?thesis
    proof (cases result)
      case None
      with Pair Cons [of acc "sleep 1 w'"] show ?thesis by simp
    next
      case (Some r)
      with Pair Cons [of "acc @ [r]" "sleep 1 w'"] Cons [of "[r]" "sleep 1 w'"]
      show ?thesis by simp
    qed
  qed
qed

text \<open>
  C9. Let the documents before \<open>f\<close> be processed, let the topics \<open>ts1\<close> of \<open>f\<close>
  succeed and let topic \<open>t\<close> raise \<open>e\<close>. Then the result of \<open>f\<close> is the error record
  with the message of \<open>e\<close>; the processing of \<open>f\<close> ends in the state the failed request
  left, whose last event is that request, so that no later topic is touched; and the
  batch result is the results before \<open>f\<close>, the error record, and the results of
  processing the documents after \<open>f\<close> from that state on.
\<close>

theorem fault_isolation:
  assumes ext: "extract_text_from_file f = Inr parts"
    and before: "process_documents prompts fs1 [] w0 = (rs1, w1)"
    and ok: "process_prompts parts ts1 [] (start_session w1) = (Inr res, w2)"
    and fail: "process_prompt parts t w2 = (Inl e, w3)"
    and all: "prompts = ts1 @ t # ts2"
  shows "process_document_with_claude prompts f w1
           = (Some (Failed (basename (file_path f)) (file_path f) (''Error: '' @ e)), w3)
       \<and> is_request (last (trace w3)) \<and> answers w3 (calls w3 - 1) = Inl e
       \<and> process_documents prompts (fs1 @ f # fs2) [] w0
           = (rs1 @ Failed (basename (file_path f)) (file_path f) (''Error: '' @ e)
                # fst (process_documents prompts fs2 [] (sleep 1 w3)),
              snd (process_documents prompts fs2 [] (sleep 1 w3)))"
proof -
  let ?r = "Failed (basename (file_path f)) (file_path f) (''Error: '' @ e)"
  from process_prompts_raise [OF ok fail, of ts2] all
  have "process_prompts parts prompts [] (start_session w1) = (Inl e, w3)"
    by simp
  with ext have doc: "process_document_with_claude prompts f w1 = (Some ?r, w3)"
    by (simp add: process_document_with_claude_def)
  have "process_documents prompts (fs1 @ f # fs2) [] w0
      = process_documents prompts (f # fs2) rs1 w1"
    using before by (simp add: process_documents_append)
  also have "\<dots> = process_documents prompts fs2 (rs1 @ [?r]) (sleep 1 w3)"
    using doc by simp
  also have "\<dots> = ((rs1 @ [?r]) @ fst (process_documents prompts fs2 [] (sleep 1 w3)),
                    snd (process_documents prompts fs2 [] (sleep 1 w3)))"
    by (rule process_documents_acc)
  finally have batch: "process_documents prompts (fs1 @ f # fs2) [] w0
      = (rs1 @ ?r # fst (process_documents prompts fs2 [] (sleep 1 w3)),
         snd (process_documents prompts fs2 [] (sleep 1 w3)))"
    by simp
  from process_prompt_raises [OF fail] doc batch show ?thesis
    by simp
qed

theorem fault_isolation_witness:
  "fst (process_documents [''Base Wages'', ''Taxes'']
          [\<lparr>file_path = ''/cases/a.pdf'', contents = Inr [Inr ''x'']\<rparr>,
           \<lparr>file_path = ''/cases/b.pdf'', contents = Inr [Inr ''y'']\<rparr>] []
          (replay [Inr ''ok'', Inr ''Session reset confirmed'', Inr ''He earned $20. (Page 1)'',
                   Inl ''overloaded'', Inr ''Session reset confirmed'', Inr ''q1'', Inr ''q2'']))
   = [Failed ''a.pdf'' ''/cases/a.pdf'' ''Error: overloaded'',
      Completed ''b.pdf'' ''/cases/b.pdf'' ''## Base Wages\<newline>q1\<newline>\<newline>## Taxes\<newline>q2''
        [(''Base Wages'', ''q1''), (''Taxes'', ''q2'')]]"
proof -
  let ?a = "\<lparr>file_path = ''/cases/a.pdf'', contents = Inr [Inr ''x'']\<rparr>"
  let ?b = "\<lparr>file_path = ''/cases/b.pdf'', contents = Inr [Inr ''y'']\<rparr>"
  let ?w = "replay [Inr ''ok'', Inr ''Session reset confirmed'', Inr ''He earned $20. (Page 1)'',
                   Inl ''overloaded'', Inr ''Session reset confirmed'', Inr ''q1'', Inr ''q2'']"
  let ?parts = "Standard ''x\<newline>--- Page 1 ---\<newline>''"
  let ?w2 = "snd (process_prompts ?parts [''Base Wages''] [] (start_session ?w))"
  let ?w3 = "snd (process_prompt ?parts ''Taxes'' ?w2)"
  have ext: "extract_text_from_file ?a = Inr ?parts"
    by code_simp
  have before: "process_documents [''Base Wages'', ''Taxes''] [] [] ?w = ([], ?w)"
    by simp
  have "fst (process_prompts ?parts [''Base Wages''] [] (start_session ?w))
      = Inr [(''Base Wages'', ''He earned $20. (Page 1)'')]"
    by code_simp
  then have ok: "process_prompts ?parts [''Base Wages''] [] (start_session ?w)
      = (Inr [(''Base Wages'', ''He earned $20. (Page 1)'')], ?w2)"
    by (metis prod.collapse)
  have "fst (process_prompt ?parts ''Taxes'' ?w2) = Inl ''overloaded''"
    by code_simp
  then have fail: "process_prompt ?parts ''Taxes'' ?w2 = (Inl ''overloaded'', ?w3)"
    by (metis prod.collapse)
  have all: "[''Base Wages'', ''Taxes''] = [''Base Wages''] @ ''Taxes'' # []"
    by simp
  have rest: "fst (process_documents [''Base Wages'', ''Taxes''] [?b] [] (sleep 1 ?w3))
      = [Completed ''b.pdf'' ''/cases/b.pdf'' ''## Base Wages\<newline>q1\<newline>\<newline>## Taxes\<newline>q2''
        [(''Base Wages'', ''q1''), (''Taxes'', ''q2'')]]"
    by code_simp
  have name: "basename (file_path ?a) = ''a.pdf''"
    by code_simp
  from fault_isolation [OF ext before ok fail all, of "[?b]"]
  have "process_documents [''Base Wages'', ''Taxes''] ([] @ ?a # [?b]) [] ?w
      = ([] @ Failed (basename (file_path ?a)) (file_path ?a) (''Error: '' @ ''overloaded'')
           # fst (process_documents [''Base Wages'', ''Taxes''] [?b] [] (sleep 1 ?w3)),
         snd (process_documents [''Base Wages'', ''Taxes''] [?b] [] (sleep 1 ?w3)))"
    by (rule conjunct2 [THEN conjunct2, THEN conjunct2])
  then have "fst (process_documents [''Base Wages'', ''Taxes''] [?a, ?b] [] ?w)
      = Failed (basename (file_path ?a)) (file_path ?a) (''Error: '' @ ''overloaded'')
           # fst (process_documents [''Base Wages'', ''Taxes''] [?b] [] (sleep 1 ?w3))"
    by (simp only: append_Nil fst_conv)
  also have "\<dots> = Failed ''a.pdf'' (file_path ?a) (''Error: '' @ ''overloaded'')
           # [Completed ''b.pdf'' ''/cases/b.pdf'' ''## Base Wages\<newline>q1\<newline>\<newline>## Taxes\<newline>q2''
        [(''Base Wages'', ''q1''), (''Taxes'', ''q2'')]]"
    by (simp only: rest name)
  finally show ?thesis
    by (simp only: pdf_file.select_convs append.simps)
qed

end
